theory Spec2Isabelle
  imports Complex_Main
begin

section \<open>Strings\<close>

text \<open>
  Chord labels are Python \<open>str\<close> values. They are modelled as \<open>string\<close>, read as ASCII
  text, which is what the chord recogniser emits (\<open>C:maj\<close>, \<open>A#:min\<close>, \<open>N\<close>).
  \<open>isspace\<close> lists the ASCII characters that \<open>str.strip()\<close> removes (tab, line feed,
  vertical tab, form feed, carriage return, the four separators 28 to 31 and the space);
  \<open>upper\<close> maps \<open>a\<close> to \<open>z\<close> onto \<open>A\<close> to \<open>Z\<close> and leaves every other character as
  it is, as \<open>str.upper()\<close> does on ASCII text.
\<close>

definition isspace :: "char \<Rightarrow> bool" where
  "isspace c = (of_char c \<in> {9, 10, 11, 12, 13, 28, 29, 30, 31, 32 :: nat})"

definition strip :: "string \<Rightarrow> string" where
  "strip s = rev (dropWhile isspace (rev (dropWhile isspace s)))"

definition upper_char :: "char \<Rightarrow> char" where
  "upper_char c =
     (let n = of_char c :: nat in if 97 \<le> n \<and> n \<le> 122 then char_of (n - 32) else c)"

definition upper :: "string \<Rightarrow> string" where
  "upper s = map upper_char s"

text \<open>\<open>s.split(':', 1)\<close> for a string that contains a colon: the text before the first
  colon and the text after it.\<close>

definition split_colon :: "string \<Rightarrow> string \<times> string" where
  "split_colon s =
     (takeWhile (\<lambda>c. c \<noteq> CHR '':'') s, tl (dropWhile (\<lambda>c. c \<noteq> CHR '':'') s))"

section \<open>utils/midi\_generator.py\<close>

text \<open>
  A chord segment is the tuple \<open>(start, end, chord)\<close>. The two times are Python floats
  that the code below only copies and never computes with; they are taken as reals.
  Pitches and velocities are Python integers (\<open>int\<close>), counts and lengths are naturals.
\<close>

type_synonym segment = "real \<times> real \<times> string"

definition CHORD_ROOT_MAP :: "string \<rightharpoonup> int" where
  "CHORD_ROOT_MAP = map_of
     [(''C'', 60), (''C#'', 61), (''Db'', 61), (''D'', 62), (''D#'', 63), (''Eb'', 63),
      (''E'', 64), (''F'', 65), (''F#'', 66), (''Gb'', 66), (''G'', 67), (''G#'', 68),
      (''Ab'', 68), (''A'', 69), (''A#'', 70), (''Bb'', 70), (''B'', 71)]"

definition CHORD_TYPE_MAP :: "string \<rightharpoonup> int list" where
  "CHORD_TYPE_MAP = map_of
     [('''', [0, 4, 7]),
      (''maj'', [0, 4, 7]),
      (''min'', [0, 3, 7]),
      (''m'', [0, 3, 7]),
      (''dim'', [0, 3, 6]),
      (''aug'', [0, 4, 8]),
      (''7'', [0, 4, 7, 10]),
      (''maj7'', [0, 4, 7, 11]),
      (''m7'', [0, 3, 7, 10])]"

text \<open>\<open>parse_chord\<close> applied to a label (a \<open>str\<close>, so neither the tuple branch nor the
  conversion by \<open>str()\<close> changes it).\<close>

definition parse_chord :: "string \<Rightarrow> string \<times> string" where
  "parse_chord chord_str =
     (let (root, ctype) =
        (if CHR '':'' \<in> set chord_str then split_colon chord_str else (chord_str, ''''))
      in (upper (strip root), strip ctype))"

text \<open>\<open>pretty_midi.Note\<close>: the four fields the constructor stores.\<close>

record midi_note =
  velocity :: int
  pitch :: int
  start_time :: real
  end_time :: real

text \<open>\<open>CHORD_TYPE_MAP.get(ctype, CHORD_TYPE_MAP[''])\<close>.\<close>

definition intervals_of :: "string \<Rightarrow> int list" where
  "intervals_of ctype =
     (case CHORD_TYPE_MAP ctype of Some iv \<Rightarrow> iv | None \<Rightarrow> [0, 4, 7])"

text \<open>One pass of the loop body of \<open>chords_to_midi\<close>: the notes that the segment appends
  to \<open>notes\<close> (none when the body ends in \<open>continue\<close>).\<close>

definition segment_notes :: "segment \<Rightarrow> midi_note list" where
  "segment_notes chord_segment =
     (let start = fst chord_segment;
          end = fst (snd chord_segment);
          chord = snd (snd chord_segment)
      in if chord = [] \<or> chord = ''N'' then []
         else let (root, ctype) = parse_chord chord
              in case CHORD_ROOT_MAP root of
                   None \<Rightarrow> []
                 | Some root_note \<Rightarrow>
                     map (\<lambda>pitch. \<lparr>velocity = 80, pitch = pitch, start_time = start,
                                   end_time = end\<rparr>)
                         (map (\<lambda>i. root_note + i) (intervals_of ctype)))"

fun notes_loop :: "segment list \<Rightarrow> midi_note list \<Rightarrow> midi_note list" where
  "notes_loop [] notes = notes"
| "notes_loop (chord_segment # rest) notes =
     notes_loop rest (notes @ segment_notes chord_segment)"

datatype midi_failure = InsufficientNotes

text \<open>
  \<open>chords_to_midi\<close> up to the point where the file is written: the result is the list
  handed to the instrument (\<open>inst.notes\<close>), or the failure of the guard
  \<open>len(notes) < 2\<close>, where the source warns and returns \<open>None\<close>. Writing the file is left
  to \<open>pretty_midi\<close>.
\<close>

definition chords_to_midi ::
  "segment list \<Rightarrow> string option \<Rightarrow> int \<Rightarrow> midi_failure + midi_note list" where
  "chords_to_midi chord_segments filename tempo =
     (let notes = notes_loop chord_segments []
      in if length notes < 2 then Inl InsufficientNotes else Inr notes)"

section \<open>utils/chord\_analyzer.py\<close>

text \<open>
  An element of the recogniser's output after \<open>tolist()\<close>: a tuple of three fields, given
  here by the values \<open>float(c[0])\<close>, \<open>float(c[1])\<close> and \<open>str(c[2])\<close> that the loop of
  \<open>analyze_audio_file\<close> takes from it, or anything else, which the loop ignores.
\<close>

datatype raw_item = Tuple3 real real string | OtherItem

fun chords_loop :: "raw_item list \<Rightarrow> segment list \<Rightarrow> segment list" where
  "chords_loop [] chords = chords"
| "chords_loop (Tuple3 c0 c1 c2 # rest) chords = chords_loop rest (chords @ [(c0, c1, c2)])"
| "chords_loop (OtherItem # rest) chords = chords_loop rest chords"

text \<open>The test \<open>label_str and label_str != 'nan'\<close> on a stripped label.\<close>

definition valid_label :: "string \<Rightarrow> bool" where
  "valid_label label_str = (label_str \<noteq> [] \<and> label_str \<noteq> ''nan'')"

text \<open>
  \<open>chord_counts\<close> is a Python \<open>dict\<close>, which iterates in insertion order: an association
  list with one entry per key, a new key added at the end, a known key counted up in
  place.
\<close>

fun count_label :: "string \<Rightarrow> (string \<times> nat) list \<Rightarrow> (string \<times> nat) list" where
  "count_label label_str [] = [(label_str, 1)]"
| "count_label label_str ((k, v) # chord_counts) =
     (if label_str = k then (k, v + 1) # chord_counts
      else (k, v) # count_label label_str chord_counts)"

fun counts_loop :: "segment list \<Rightarrow> (string \<times> nat) list \<Rightarrow> (string \<times> nat) list" where
  "counts_loop [] chord_counts = chord_counts"
| "counts_loop ((_, _, label) # rest) chord_counts =
     (let label_str = strip label
      in if valid_label label_str then counts_loop rest (count_label label_str chord_counts)
         else counts_loop rest chord_counts)"

text \<open>
  \<open>max(items, key=lambda x: x[1])\<close>: the builtin keeps the first item and replaces it
  only by a later item whose key is strictly greater.
\<close>

fun max_loop :: "string \<times> nat \<Rightarrow> (string \<times> nat) list \<Rightarrow> string \<times> nat" where
  "max_loop best [] = best"
| "max_loop best (x # xs) = max_loop (if snd best < snd x then x else best) xs"

definition most_common_of :: "(string \<times> nat) list \<Rightarrow> string option \<times> nat" where
  "most_common_of chord_counts =
     (case chord_counts of
        [] \<Rightarrow> (None, 0)
      | x # xs \<Rightarrow> (let m = max_loop x xs in (Some (fst m), snd m)))"

record chord_statistics =
  total_chords :: nat
  unique_chords :: nat
  most_common_chord :: "string option"
  most_common_count :: nat
  chord_distribution :: "(string \<times> nat) list"

text \<open>\<open>_analyze_chord_statistics\<close>; \<open>None\<close> is the empty dictionary returned for an empty
  list.\<close>

definition analyze_chord_statistics :: "segment list \<Rightarrow> chord_statistics option" where
  "analyze_chord_statistics chords =
     (if chords = [] then None
      else let chord_counts = counts_loop chords [];
               most_common = most_common_of chord_counts
           in Some \<lparr>total_chords = length chords,
                    unique_chords = length chord_counts,
                    most_common_chord = fst most_common,
                    most_common_count = snd most_common,
                    chord_distribution = chord_counts\<rparr>)"

text \<open>The dictionary returned by \<open>analyze_audio_file\<close>, with its keys \<open>chords\<close>,
  \<open>statistics\<close> and \<open>duration\<close>.\<close>

record analysis_result =
  res_chords :: "segment list"
  res_statistics :: "chord_statistics option"
  res_duration :: real

datatype analysis_failure = NoChordsDetected

text \<open>
  \<open>analyze_audio_file\<close> from the recogniser's output on: \<open>Inl NoChordsDetected\<close> is the
  branch that warns that no chord progression was detected and returns \<open>None\<close>.
\<close>

definition analyze_audio_file :: "raw_item list \<Rightarrow> analysis_failure + analysis_result" where
  "analyze_audio_file chords_arr =
     (let chords = chords_loop chords_arr []
      in if chords = [] then Inl NoChordsDetected
         else Inr \<lparr>res_chords = chords,
                   res_statistics = analyze_chord_statistics chords,
                   res_duration = (if length chords > 0 then fst (snd (last chords)) else 0)\<rparr>)"

section \<open>pages/advanced\_analysis.py\<close>

text \<open>The list \<open>valid_chords\<close> that both \<open>render_chord_pattern_analysis\<close> and
  \<open>render_musical_features\<close> build from the segments.\<close>

definition valid_chords :: "segment list \<Rightarrow> string list" where
  "valid_chords chords =
     filter valid_label (map (\<lambda>(_, _, label). strip label) chords)"

text \<open>\<open>changes\<close> and \<open>change_ratio\<close> of \<open>render_chord_pattern_analysis\<close>; the quotient
  is the exact one, of which Python shows the nearest float. The argument \<open>valid\<close> is
  the source's list \<open>valid_chords\<close>.\<close>

definition changes :: "string list \<Rightarrow> nat" where
  "changes valid =
     length (filter (\<lambda>i. valid ! i \<noteq> valid ! (i - 1)) [1..<length valid])"

definition change_ratio :: "string list \<Rightarrow> real" where
  "change_ratio valid =
     (if length valid > 1
      then real (changes valid) / real (length valid - 1) else 0)"

text \<open>The streak loop of \<open>render_musical_features\<close>, on the state
  \<open>(current_chord, max_streak, current_streak)\<close>.\<close>

fun streak_loop :: "string list \<Rightarrow> string \<times> nat \<times> nat \<Rightarrow> string \<times> nat \<times> nat" where
  "streak_loop [] st = st"
| "streak_loop (chord # rest) (current_chord, max_streak, current_streak) =
     (if chord = current_chord
      then streak_loop rest (current_chord, max_streak, current_streak + 1)
      else streak_loop rest
             (chord, (if current_streak > max_streak then current_streak else max_streak), 1))"

text \<open>\<open>max_streak\<close> as shown in the metric; \<open>None\<close> when \<open>valid_chords\<close> is empty and the
  block is not run.\<close>

definition max_streak :: "string list \<Rightarrow> nat option" where
  "max_streak valid =
     (case valid of
        [] \<Rightarrow> None
      | c # rest \<Rightarrow>
          (let (current_chord, mx, current_streak) = streak_loop rest (c, 1, 1)
           in Some (if current_streak > mx then current_streak else mx)))"

section \<open>Order of first occurrence\<close>

text \<open>The elements of a list in the order in which they first occur, each once.\<close>

definition first_seen :: "'a list \<Rightarrow> 'a list" where
  "first_seen v = rev (remdups (rev v))"

section \<open>Auxiliary lemmas\<close>

subsection \<open>Counting labels\<close>

lemma counts_loop_fold:
  "counts_loop chords acc = fold count_label (valid_chords chords) acc"
  by (induction chords acc rule: counts_loop.induct) (simp_all add: valid_chords_def Let_def)

lemma count_label_tabulate:
  "distinct ks \<Longrightarrow>
   count_label x (map (\<lambda>l. (l, f l)) ks) =
     (if x \<in> set ks then map (\<lambda>l. (l, if l = x then f l + 1 else f l)) ks
      else map (\<lambda>l. (l, f l)) ks @ [(x, 1)])"
  by (induction ks) auto

lemma first_seen_snoc:
  "first_seen (v @ [x]) = (if x \<in> set v then first_seen v else first_seen v @ [x])"
  by (simp add: first_seen_def)

lemma distinct_first_seen: "distinct (first_seen v)" and set_first_seen: "set (first_seen v) = set v"
  by (simp_all add: first_seen_def)

lemma fold_count_label:
  "fold count_label v [] = map (\<lambda>l. (l, count_list v l)) (first_seen v)"
proof (induction v rule: rev_induct)
  case Nil
  show ?case by (simp add: first_seen_def)
next
  case (snoc x v)
  have "fold count_label (v @ [x]) [] = count_label x (map (\<lambda>l. (l, count_list v l)) (first_seen v))"
    using snoc by simp
  also have "\<dots> = map (\<lambda>l. (l, count_list (v @ [x]) l)) (first_seen (v @ [x]))"
    by (auto simp add: count_label_tabulate distinct_first_seen set_first_seen first_seen_snoc
        count_list_0_iff)
  finally show ?case .
qed

lemma max_loop_first_max:
  "\<exists>pre post. b # xs = pre @ max_loop b xs # post \<and>
     (\<forall>y\<in>set pre. snd y < snd (max_loop b xs)) \<and>
     (\<forall>y\<in>set post. snd y \<le> snd (max_loop b xs))"
proof (induction xs arbitrary: b)
  case Nil
  have "[b] = [] @ b # [] \<and> (\<forall>y\<in>set []. snd y < snd b) \<and> (\<forall>y\<in>set []. snd y \<le> snd b)"
    by simp
  then show ?case unfolding max_loop.simps by blast
next
  case (Cons x xs)
  show ?case
  proof (cases "snd b < snd x")
    case True
    define m where "m = max_loop x xs"
    from True have m: "max_loop b (x # xs) = m" by (simp add: m_def)
    from Cons[of x] obtain pre post where
      d: "x # xs = pre @ m # post" and
      lt: "\<forall>y\<in>set pre. snd y < snd m" and le: "\<forall>y\<in>set post. snd y \<le> snd m"
      unfolding m_def by blast
    have "snd x \<le> snd m"
    proof (cases pre)
      case Nil with d show ?thesis by simp
    next
      case (Cons p ps) with d lt show ?thesis by auto
    qed
    with True have "snd b < snd m" by simp
    with d lt le have "b # x # xs = (b # pre) @ m # post \<and>
       (\<forall>y\<in>set (b # pre). snd y < snd m) \<and> (\<forall>y\<in>set post. snd y \<le> snd m)"
      by simp
    then show ?thesis unfolding m by blast
  next
    case False
    define m where "m = max_loop b xs"
    from False have m: "max_loop b (x # xs) = m" by (simp add: m_def)
    from Cons[of b] obtain pre post where
      d: "b # xs = pre @ m # post" and
      lt: "\<forall>y\<in>set pre. snd y < snd m" and le: "\<forall>y\<in>set post. snd y \<le> snd m"
      unfolding m_def by blast
    show ?thesis
    proof (cases pre)
      case Nil
      with d have "m = b" "xs = post" by simp_all
      with False le have "b # x # xs = [] @ m # (x # post) \<and>
         (\<forall>y\<in>set []. snd y < snd m) \<and> (\<forall>y\<in>set (x # post). snd y \<le> snd m)"
        by simp
      then show ?thesis unfolding m by blast
    next
      case (Cons p ps)
      with d have pb: "p = b" and xs: "xs = ps @ m # post" by simp_all
      from lt Cons pb have "snd b < snd m" by simp
      with False lt le Cons pb xs have "b # x # xs = (b # x # ps) @ m # post \<and>
         (\<forall>y\<in>set (b # x # ps). snd y < snd m) \<and> (\<forall>y\<in>set post. snd y \<le> snd m)"
        by auto
      then show ?thesis unfolding m by blast
    qed
  qed
qed

lemma first_seen_split:
  "first_seen v = a @ l # b \<Longrightarrow> \<exists>p q. v = p @ l # q \<and> l \<notin> set p \<and> set p = set a"
proof (induction v arbitrary: b rule: rev_induct)
  case Nil
  then show ?case by (simp add: first_seen_def)
next
  case (snoc x v)
  show ?case
  proof (cases "x \<in> set v")
    case True
    with snoc.prems have "first_seen v = a @ l # b" by (simp add: first_seen_snoc)
    from snoc.IH[OF this] obtain p q where "v = p @ l # q" "l \<notin> set p" "set p = set a" by blast
    then have "v @ [x] = p @ l # (q @ [x]) \<and> l \<notin> set p \<and> set p = set a" by simp
    then show ?thesis by blast
  next
    case False
    with snoc.prems have e: "first_seen v @ [x] = a @ l # b" by (simp add: first_seen_snoc)
    show ?thesis
    proof (cases b rule: rev_cases)
      case Nil
      with e have "first_seen v = a" "l = x" by simp_all
      with False have "v @ [x] = v @ l # [] \<and> l \<notin> set v \<and> set v = set a"
        using set_first_seen[of v] by simp
      then show ?thesis by blast
    next
      case (snoc b' y)
      with e have "first_seen v = a @ l # b'" by simp
      from snoc.IH[OF this] obtain p q where "v = p @ l # q" "l \<notin> set p" "set p = set a" by blast
      then have "v @ [x] = p @ l # (q @ [x]) \<and> l \<notin> set p \<and> set p = set a" by simp
      then show ?thesis by blast
    qed
  qed
qed

subsection \<open>Notes of a segment\<close>

lemma notes_loop_concat: "notes_loop segs acc = acc @ concat (map segment_notes segs)"
  by (induction segs arbitrary: acc) simp_all

lemma root_range: "CHORD_ROOT_MAP rt = Some r \<Longrightarrow> 60 \<le> r \<and> r \<le> 71"
  by (auto simp: CHORD_ROOT_MAP_def split: if_splits)

lemma type_default: "CHORD_TYPE_MAP '''' = Some [0, 4, 7]"
  by (simp add: CHORD_TYPE_MAP_def)

lemma intervals_of_ran: "intervals_of ctype \<in> ran CHORD_TYPE_MAP"
proof (cases "CHORD_TYPE_MAP ctype")
  case None
  then have "intervals_of ctype = [0, 4, 7]" by (simp add: intervals_of_def)
  moreover have "[0, 4, 7] \<in> ran CHORD_TYPE_MAP"
    using type_default by (rule ranI)
  ultimately show ?thesis by simp
next
  case (Some iv)
  then have "intervals_of ctype = iv" by (simp add: intervals_of_def)
  moreover have "iv \<in> ran CHORD_TYPE_MAP"
    using Some by (rule ranI)
  ultimately show ?thesis by simp
qed

lemma interval_range: "CHORD_TYPE_MAP ctype = Some iv \<Longrightarrow> i \<in> set iv \<Longrightarrow> 0 \<le> i \<and> i \<le> 11"
  by (auto simp: CHORD_TYPE_MAP_def split: if_splits)

lemma intervals_of_range: "i \<in> set (intervals_of ctype) \<Longrightarrow> 0 \<le> i \<and> i \<le> 11"
  using interval_range[of ctype] by (auto simp: intervals_of_def split: option.splits)

lemma segment_notes_note:
  assumes "n \<in> set (segment_notes seg)"
  shows "velocity n = 80 \<and> 60 \<le> pitch n \<and> pitch n \<le> 82 \<and>
     (\<exists>r iv i. r \<in> ran CHORD_ROOT_MAP \<and> iv \<in> ran CHORD_TYPE_MAP \<and> i \<in> set iv \<and>
        pitch n = r + i)"
proof -
  obtain rt ctype where pc: "parse_chord (snd (snd seg)) = (rt, ctype)"
    by (cases "parse_chord (snd (snd seg))")
  from assms pc obtain r where r: "CHORD_ROOT_MAP rt = Some r"
    by (cases "CHORD_ROOT_MAP rt") (auto simp: segment_notes_def Let_def split: if_splits)
  from assms pc r obtain i where i: "i \<in> set (intervals_of ctype)"
    and n: "n = \<lparr>velocity = 80, pitch = r + i, start_time = fst seg, end_time = fst (snd seg)\<rparr>"
    by (auto simp: segment_notes_def Let_def split: if_splits)
  from r have "r \<in> ran CHORD_ROOT_MAP" by (rule ranI)
  with i intervals_of_ran[of ctype] n root_range[OF r] intervals_of_range[OF i]
  show ?thesis by auto
qed

lemma of_char_b: "of_char (CHR ''b'') = (98::nat)" by simp

lemma upper_char_not_b: "upper_char c \<noteq> CHR ''b''"
proof
  assume a: "upper_char c = CHR ''b''"
  then have e: "(of_char (upper_char c) :: nat) = 98" by simp
  show False
  proof (cases "97 \<le> (of_char c :: nat) \<and> (of_char c :: nat) \<le> 122")
    case True
    then have "(of_char c - 32 :: nat) < 256" by arith
    then have "(of_char c - 32 :: nat) mod 256 = of_char c - 32" by (rule mod_less)
    with True have "(of_char (upper_char c) :: nat) = of_char c - 32"
      by (simp add: upper_char_def Let_def)
    with True e show False by arith
  next
    case False
    then have "upper_char c = c" unfolding upper_char_def Let_def by (rule if_not_P)
    with e False show False by simp
  qed
qed

lemma upper_no_b: "CHR ''b'' \<notin> set (upper s)"
  using upper_char_not_b by (fastforce simp: upper_def)

lemma flat_roots_unreachable:
  "fst (parse_chord label) \<notin> {''Db'', ''Eb'', ''Gb'', ''Ab'', ''Bb''}"
proof -
  have "\<exists>r. fst (parse_chord label) = upper r"
    by (cases "CHR '':'' \<in> set label") (auto simp add: parse_chord_def split_colon_def)
  then obtain r where "fst (parse_chord label) = upper r" by blast
  with upper_no_b[of r] show ?thesis by auto
qed

section \<open>Claims\<close>

subsection \<open>Statistics\<close>

text \<open>
  C1, as the code has it: for a non-empty list \<open>total_chords\<close> is \<open>len(chords)\<close>, the number
  of all segments, whether their labels are valid or not; for the empty list no statistics
  are returned.
\<close>

theorem total_chords_is_length:
  "map_option total_chords (analyze_chord_statistics chords) =
     (if chords = [] then None else Some (length chords))"
  by (simp add: analyze_chord_statistics_def Let_def)

text \<open>
  C1 as stated fails: of the two segments labelled \<open>C\<close> and \<open>nan\<close> one is valid, and
  \<open>total_chords\<close> is 2.
\<close>

theorem total_chords_counts_invalid:
  "map_option total_chords (analyze_chord_statistics [(0, 1, ''C''), (1, 2, ''nan'')]) = Some 2
   \<and> length (valid_chords [(0, 1, ''C''), (1, 2, ''nan'')]) = 1"
  by code_simp

text \<open>
  C9: a non-empty list none of whose stripped labels is valid (each is empty or \<open>nan\<close>)
  still yields statistics: no most common chord, count 0, no unique chord, an empty
  distribution.
\<close>

theorem statistics_without_valid_labels:
  assumes "chords \<noteq> []"
    and "\<forall>seg\<in>set chords. strip (snd (snd seg)) = [] \<or> strip (snd (snd seg)) = ''nan''"
  shows "analyze_chord_statistics chords =
     Some \<lparr>total_chords = length chords, unique_chords = 0, most_common_chord = None,
           most_common_count = 0, chord_distribution = []\<rparr>"
proof -
  from assms(2) have "valid_chords chords = []"
    by (auto simp: valid_chords_def valid_label_def filter_empty_conv)
  then have "counts_loop chords [] = []"
    by (simp add: counts_loop_fold)
  with assms(1) show ?thesis
    by (simp add: analyze_chord_statistics_def most_common_of_def)
qed

theorem statistics_without_valid_labels_witness:
  "[(0, 1, ''nan''), (1, 2, ''  '')] \<noteq> ([] :: segment list) \<and>
   strip ''nan'' = ''nan'' \<and> strip ''  '' = [] \<and>
   analyze_chord_statistics [(0, 1, ''nan''), (1, 2, ''  '')] =
     Some \<lparr>total_chords = 2, unique_chords = 0, most_common_chord = None,
           most_common_count = 0, chord_distribution = []\<rparr>"
proof -
  have h1: "[(0, 1, ''nan''), (1, 2, ''  '')] \<noteq> ([] :: segment list)" by simp
  have s1: "strip ''nan'' = ''nan''" and s2: "strip ''  '' = []" by code_simp+
  from s1 s2 have h2: "\<forall>seg\<in>set [(0, 1, ''nan''), (1, 2, ''  '') :: segment].
      strip (snd (snd seg)) = [] \<or> strip (snd (snd seg)) = ''nan''"
    by simp
  from statistics_without_valid_labels [OF h1 h2] h1 s1 s2 show ?thesis by simp
qed

text \<open>
  C7: when there is a valid label, \<open>most_common\<close> is an entry \<open>(l, c)\<close> of the distribution
  whose count \<open>c\<close> is the greatest; every entry before it in the distribution has a
  strictly smaller count, so among the labels that share the greatest count it is the
  first. The distribution is built in first-seen order: \<open>l\<close> occurs in the list of valid
  labels at a place before which every label occurs fewer than \<open>c\<close> times in the whole list,
  \<open>c\<close> is the number of occurrences of \<open>l\<close>, and no label occurs more often.
\<close>

theorem most_common_first_maximum:
  assumes "valid_chords chords \<noteq> []"
  shows "\<exists>st l c pre post p q.
     analyze_chord_statistics chords = Some st \<and>
     most_common_chord st = Some l \<and> most_common_count st = c \<and>
     chord_distribution st = pre @ (l, c) # post \<and>
     (\<forall>y\<in>set pre. snd y < c) \<and> (\<forall>y\<in>set post. snd y \<le> c) \<and>
     map fst (chord_distribution st) = first_seen (valid_chords chords) \<and>
     valid_chords chords = p @ l # q \<and> l \<notin> set p \<and>
     (\<forall>k\<in>set p. count_list (valid_chords chords) k < c) \<and>
     c = count_list (valid_chords chords) l \<and>
     (\<forall>k. count_list (valid_chords chords) k \<le> c)"
proof -
  define v where "v = valid_chords chords"
  define d where "d = counts_loop chords []"
  have d: "d = map (\<lambda>l. (l, count_list v l)) (first_seen v)"
    by (simp add: d_def v_def counts_loop_fold fold_count_label)
  from assms have ne: "chords \<noteq> []" by (auto simp: valid_chords_def)
  from assms have "first_seen v \<noteq> []"
    using set_first_seen[of v] by (auto simp: v_def)
  with d obtain x xs where dx: "d = x # xs" by (cases d) auto
  define m where "m = max_loop x xs"
  from max_loop_first_max[of x xs] dx obtain pre post where
    split: "d = pre @ m # post" and
    lt: "\<forall>y\<in>set pre. snd y < snd m" and le: "\<forall>y\<in>set post. snd y \<le> snd m"
    unfolding m_def by auto
  define st where "st = \<lparr>total_chords = length chords, unique_chords = length d,
     most_common_chord = Some (fst m), most_common_count = snd m, chord_distribution = d\<rparr>"
  have st: "analyze_chord_statistics chords = Some st"
    using ne dx by (simp add: analyze_chord_statistics_def most_common_of_def d_def[symmetric]
        st_def m_def Let_def)
  have keys: "map fst d = first_seen v" by (simp add: d o_def)
  have cnt: "\<And>k n. (k, n) \<in> set d \<Longrightarrow> n = count_list v k" by (auto simp: d)
  from split have "m \<in> set d" by simp
  then have mc: "snd m = count_list v (fst m)" using cnt[of "fst m" "snd m"] by simp
  from keys split have "first_seen v = map fst pre @ fst m # map fst post" by simp
  from first_seen_split[OF this] obtain p q where
    vs: "v = p @ fst m # q" and np: "fst m \<notin> set p" and sp: "set p = set (map fst pre)"
    by blast
  have before: "\<forall>k\<in>set p. count_list v k < snd m"
  proof
    fix k assume "k \<in> set p"
    with sp obtain y where y: "y \<in> set pre" "fst y = k" by auto
    with split have "(k, snd y) \<in> set d" by auto
    from cnt[OF this] y lt show "count_list v k < snd m" by auto
  qed
  have all: "\<forall>k. count_list v k \<le> snd m"
  proof
    fix k
    show "count_list v k \<le> snd m"
    proof (cases "k \<in> set v")
      case False
      then show ?thesis by (simp add: count_list_0_iff)
    next
      case True
      then have "(k, count_list v k) \<in> set d" by (auto simp: d set_first_seen)
      with split lt le show ?thesis by (auto simp: less_imp_le)
    qed
  qed
  have f1: "most_common_chord st = Some (fst m)" by (simp add: st_def)
  have f2: "most_common_count st = snd m" by (simp add: st_def)
  have f3: "chord_distribution st = pre @ (fst m, snd m) # post"
    using split by (simp add: st_def)
  have f4: "map fst (chord_distribution st) = first_seen v"
    using keys by (simp add: st_def)
  from st f1 f2 f3 lt le f4 vs np before mc all show ?thesis
    unfolding v_def by blast
qed

theorem most_common_first_maximum_witness:
  "valid_chords [(0, 1, ''G''), (1, 2, ''C'')] \<noteq> [] \<and>
   (\<exists>st l c pre post p q.
     analyze_chord_statistics [(0, 1, ''G''), (1, 2, ''C'')] = Some st \<and>
     most_common_chord st = Some l \<and> most_common_count st = c \<and>
     chord_distribution st = pre @ (l, c) # post \<and>
     (\<forall>y\<in>set pre. snd y < c) \<and> (\<forall>y\<in>set post. snd y \<le> c) \<and>
     map fst (chord_distribution st) = first_seen (valid_chords [(0, 1, ''G''), (1, 2, ''C'')]) \<and>
     valid_chords [(0, 1, ''G''), (1, 2, ''C'')] = p @ l # q \<and> l \<notin> set p \<and>
     (\<forall>k\<in>set p. count_list (valid_chords [(0, 1, ''G''), (1, 2, ''C'')]) k < c) \<and>
     c = count_list (valid_chords [(0, 1, ''G''), (1, 2, ''C'')]) l \<and>
     (\<forall>k. count_list (valid_chords [(0, 1, ''G''), (1, 2, ''C'')]) k \<le> c))"
proof -
  have h: "valid_chords [(0, 1, ''G''), (1, 2, ''C'')] \<noteq> []" by code_simp
  show ?thesis using h most_common_first_maximum [OF h] by (rule conjI)
qed

text \<open>On a tie the first label seen wins, here \<open>G\<close> over the alphabetically smaller
  \<open>C\<close>.\<close>

lemma most_common_tie_first_seen:
  "analyze_chord_statistics [(0, 1, ''G''), (1, 2, ''C''), (2, 3, ''C''), (3, 4, ''G'')] =
     Some \<lparr>total_chords = 4, unique_chords = 2, most_common_chord = Some ''G'',
           most_common_count = 2, chord_distribution = [(''G'', 2), (''C'', 2)]\<rparr>"
  by code_simp

subsection \<open>Analysis\<close>

text \<open>
  C4, as the code has it: the analysis fails exactly when the normalised sequence has no
  segment at all, valid or not, as for the empty input. A sequence that has segments but
  no valid label does not fail: it yields a result whose statistics have an empty
  distribution.
\<close>

theorem analysis_fails_iff_no_segment:
  "(analyze_audio_file chords_arr = Inl NoChordsDetected) = (chords_loop chords_arr [] = [])
   \<and> analyze_audio_file [] = Inl NoChordsDetected
   \<and> (chords_loop chords_arr [] \<noteq> [] \<and> valid_chords (chords_loop chords_arr []) = [] \<longrightarrow>
        (\<exists>r st. analyze_audio_file chords_arr = Inr r \<and> res_statistics r = Some st \<and>
           chord_distribution st = [] \<and> most_common_chord st = None))"
proof (intro conjI impI)
  show "(analyze_audio_file chords_arr = Inl NoChordsDetected) = (chords_loop chords_arr [] = [])"
    by (simp add: analyze_audio_file_def Let_def)
  show "analyze_audio_file [] = Inl NoChordsDetected"
    by (simp add: analyze_audio_file_def)
next
  assume a: "chords_loop chords_arr [] \<noteq> [] \<and> valid_chords (chords_loop chords_arr []) = []"
  define cs where "cs = chords_loop chords_arr []"
  from a have ne: "cs \<noteq> []" and nv: "valid_chords cs = []" by (simp_all add: cs_def)
  from nv have "counts_loop cs [] = []" by (simp add: counts_loop_fold)
  with ne have "\<exists>st. analyze_chord_statistics cs = Some st \<and> chord_distribution st = [] \<and>
      most_common_chord st = None"
    by (simp add: analyze_chord_statistics_def most_common_of_def)
  with ne show "\<exists>r st. analyze_audio_file chords_arr = Inr r \<and> res_statistics r = Some st \<and>
           chord_distribution st = [] \<and> most_common_chord st = None"
    by (auto simp: analyze_audio_file_def cs_def[symmetric])
qed

theorem analysis_fails_iff_no_segment_witness:
  "chords_loop [Tuple3 0 1 ''nan'', OtherItem] [] \<noteq> [] \<and>
   valid_chords (chords_loop [Tuple3 0 1 ''nan'', OtherItem] []) = [] \<and>
   (\<exists>r st. analyze_audio_file [Tuple3 0 1 ''nan'', OtherItem] = Inr r \<and>
      res_statistics r = Some st \<and> chord_distribution st = [] \<and> most_common_chord st = None)"
proof -
  have h1: "chords_loop [Tuple3 0 1 ''nan'', OtherItem] [] \<noteq> []" by simp
  have h2: "valid_chords (chords_loop [Tuple3 0 1 ''nan'', OtherItem] []) = []" by code_simp
  from analysis_fails_iff_no_segment [of "[Tuple3 0 1 ''nan'', OtherItem]"] h1 h2
  show ?thesis by blast
qed

text \<open>
  C4 as stated fails: the single segment labelled \<open>nan\<close> is not valid, and the analysis
  returns a result.
\<close>

theorem analysis_of_invalid_labels_succeeds:
  "valid_chords (chords_loop [Tuple3 0 1 ''nan''] []) = [] \<and>
   analyze_audio_file [Tuple3 0 1 ''nan''] =
     Inr \<lparr>res_chords = [(0, 1, ''nan'')],
          res_statistics = Some \<lparr>total_chords = 1, unique_chords = 0, most_common_chord = None,
                                 most_common_count = 0, chord_distribution = []\<rparr>,
          res_duration = 1\<rparr>"
  by code_simp

subsection \<open>Derived metrics\<close>

text \<open>
  C6: for six segments labelled \<open>C, C, G, G, G, N\<close>, whatever their times, all six labels
  are valid, the longest run is 3, there are 2 changes over 5 adjacent pairs, so the change
  ratio is 2/5, and the most common chord is \<open>G\<close> with count 3.
\<close>

theorem metrics_of_CCGGGN:
  "valid_chords [(s1, e1, ''C''), (s2, e2, ''C''), (s3, e3, ''G''), (s4, e4, ''G''),
                 (s5, e5, ''G''), (s6, e6, ''N'')] = [''C'', ''C'', ''G'', ''G'', ''G'', ''N'']
   \<and> max_streak [''C'', ''C'', ''G'', ''G'', ''G'', ''N''] = Some 3
   \<and> changes [''C'', ''C'', ''G'', ''G'', ''G'', ''N''] = 2
   \<and> change_ratio [''C'', ''C'', ''G'', ''G'', ''G'', ''N''] = 2 / 5
   \<and> analyze_chord_statistics [(s1, e1, ''C''), (s2, e2, ''C''), (s3, e3, ''G''),
        (s4, e4, ''G''), (s5, e5, ''G''), (s6, e6, ''N'')] =
      Some \<lparr>total_chords = 6, unique_chords = 3, most_common_chord = Some ''G'',
            most_common_count = 3, chord_distribution = [(''C'', 2), (''G'', 3), (''N'', 1)]\<rparr>"
proof -
  have s: "strip ''C'' = ''C''" "strip ''G'' = ''G''" "strip ''N'' = ''N''" by code_simp+
  have "valid_chords [(s1, e1, ''C''), (s2, e2, ''C''), (s3, e3, ''G''), (s4, e4, ''G''),
                 (s5, e5, ''G''), (s6, e6, ''N'')] = [''C'', ''C'', ''G'', ''G'', ''G'', ''N'']"
    by (simp add: valid_chords_def valid_label_def s)
  moreover have "max_streak [''C'', ''C'', ''G'', ''G'', ''G'', ''N''] = Some 3" by code_simp
  moreover have "changes [''C'', ''C'', ''G'', ''G'', ''G'', ''N''] = 2" by code_simp
  moreover have "change_ratio [''C'', ''C'', ''G'', ''G'', ''G'', ''N''] = 2 / 5" by code_simp
  moreover have "analyze_chord_statistics [(s1, e1, ''C''), (s2, e2, ''C''), (s3, e3, ''G''),
        (s4, e4, ''G''), (s5, e5, ''G''), (s6, e6, ''N'')] =
      Some \<lparr>total_chords = 6, unique_chords = 3, most_common_chord = Some ''G'',
            most_common_count = 3, chord_distribution = [(''C'', 2), (''G'', 3), (''N'', 1)]\<rparr>"
    by (simp add: analyze_chord_statistics_def s valid_label_def most_common_of_def)
  ultimately show ?thesis by (intro conjI)
qed

subsection \<open>Parsing and synthesis\<close>

lemma parse_chord_C_maj: "parse_chord ''C:maj'' = (''C'', ''maj'')"
  by code_simp

lemma root_C: "CHORD_ROOT_MAP ''C'' = Some 60"
  by code_simp

lemma intervals_maj: "intervals_of ''maj'' = [0, 4, 7]"
  by code_simp

lemma segment_notes_C_maj:
  "segment_notes (s, e, ''C:maj'') =
     [\<lparr>velocity = 80, pitch = 60, start_time = s, end_time = e\<rparr>,
      \<lparr>velocity = 80, pitch = 64, start_time = s, end_time = e\<rparr>,
      \<lparr>velocity = 80, pitch = 67, start_time = s, end_time = e\<rparr>]"
  by (simp add: segment_notes_def parse_chord_C_maj root_C intervals_maj)

text \<open>The two parses of C3 that the code gets right: \<open>D:maj\<close> has root 62 and intervals
  0, 4, 7, and the root of \<open>Xb:maj\<close> is not in the table.\<close>

lemma parse_D_maj_and_Xb_maj:
  "parse_chord ''D:maj'' = (''D'', ''maj'') \<and> CHORD_ROOT_MAP ''D'' = Some 62 \<and>
   intervals_of ''maj'' = [0, 4, 7] \<and>
   parse_chord ''Xb:maj'' = (''XB'', ''maj'') \<and> CHORD_ROOT_MAP ''XB'' = None"
  by code_simp

text \<open>
  C3 at \<open>Bb:min\<close>: the root is upper-cased to \<open>BB\<close>, which is not a key of the table (the
  key for 70 is \<open>Bb\<close>), so the segment is skipped like one with an unknown root. The
  quality \<open>min\<close> does have the intervals 0, 3, 7.
\<close>

theorem parse_Bb_min_unknown_root:
  "parse_chord ''Bb:min'' = (''BB'', ''min'') \<and> CHORD_ROOT_MAP ''BB'' = None \<and>
   CHORD_ROOT_MAP ''Bb'' = Some 70 \<and> intervals_of ''min'' = [0, 3, 7] \<and>
   segment_notes (0, 1, ''Bb:min'') = []"
  by code_simp

text \<open>
  C2 at a single valid chord segment: \<open>C:maj\<close> alone gives three notes, the guard
  \<open>len(notes) < 2\<close> does not fire, and the notes are written.
\<close>

theorem single_chord_is_synthesized:
  "chords_to_midi [(0, 2, ''C:maj'')] None 100 =
     Inr [\<lparr>velocity = 80, pitch = 60, start_time = 0, end_time = 2\<rparr>,
          \<lparr>velocity = 80, pitch = 64, start_time = 0, end_time = 2\<rparr>,
          \<lparr>velocity = 80, pitch = 67, start_time = 0, end_time = 2\<rparr>]"
  by code_simp

text \<open>
  C5: two segments labelled \<open>C:maj\<close> give exactly six notes: the pitches 60, 64, 67 over
  the first segment's times and then over the second's, each at velocity 80, in segment
  order and within a segment in the order of the intervals.
\<close>

theorem two_C_maj_segments_six_notes:
  "chords_to_midi [(s1, e1, ''C:maj''), (s2, e2, ''C:maj'')] filename tempo =
     Inr [\<lparr>velocity = 80, pitch = 60, start_time = s1, end_time = e1\<rparr>,
          \<lparr>velocity = 80, pitch = 64, start_time = s1, end_time = e1\<rparr>,
          \<lparr>velocity = 80, pitch = 67, start_time = s1, end_time = e1\<rparr>,
          \<lparr>velocity = 80, pitch = 60, start_time = s2, end_time = e2\<rparr>,
          \<lparr>velocity = 80, pitch = 64, start_time = s2, end_time = e2\<rparr>,
          \<lparr>velocity = 80, pitch = 67, start_time = s2, end_time = e2\<rparr>]"
  by (simp add: chords_to_midi_def segment_notes_C_maj)

text \<open>
  C8: the tempo has no effect on the outcome of the synthesis: the same segments give the
  same notes, or the same failure, under any two tempos.
\<close>

theorem tempo_has_no_effect:
  "chords_to_midi chord_segments filename tempo1 = chords_to_midi chord_segments filename tempo2"
  by (simp add: chords_to_midi_def)

text \<open>
  C10: every note of a synthesis has velocity 80 and a pitch that is a root pitch of the
  root table plus an interval of the quality table, hence between 60 and 82 and so within
  the MIDI range 0 to 127.
\<close>

theorem synthesized_notes_in_range:
  assumes "chords_to_midi chord_segments filename tempo = Inr ns" and "n \<in> set ns"
  shows "velocity n = 80 \<and> 60 \<le> pitch n \<and> pitch n \<le> 82 \<and> 0 \<le> pitch n \<and> pitch n \<le> 127 \<and>
     (\<exists>r iv i. r \<in> ran CHORD_ROOT_MAP \<and> iv \<in> ran CHORD_TYPE_MAP \<and> i \<in> set iv \<and>
        pitch n = r + i)"
proof -
  from assms have "n \<in> set (concat (map segment_notes chord_segments))"
    by (auto simp: chords_to_midi_def Let_def notes_loop_concat split: if_splits)
  then obtain seg where "n \<in> set (segment_notes seg)" by auto
  from segment_notes_note[OF this] show ?thesis by auto
qed

theorem synthesized_notes_in_range_witness:
  "chords_to_midi [(0, 1, ''B:maj7'')] None 100 =
     Inr [\<lparr>velocity = 80, pitch = 71, start_time = 0, end_time = 1\<rparr>,
          \<lparr>velocity = 80, pitch = 75, start_time = 0, end_time = 1\<rparr>,
          \<lparr>velocity = 80, pitch = 78, start_time = 0, end_time = 1\<rparr>,
          \<lparr>velocity = 80, pitch = 82, start_time = 0, end_time = 1\<rparr>] \<and>
   (\<exists>r iv i. r \<in> ran CHORD_ROOT_MAP \<and> iv \<in> ran CHORD_TYPE_MAP \<and> i \<in> set iv \<and>
      (82 :: int) = r + i)"
proof -
  have h: "chords_to_midi [(0, 1, ''B:maj7'')] None 100 =
     Inr [\<lparr>velocity = 80, pitch = 71, start_time = 0, end_time = 1\<rparr>,
          \<lparr>velocity = 80, pitch = 75, start_time = 0, end_time = 1\<rparr>,
          \<lparr>velocity = 80, pitch = 78, start_time = 0, end_time = 1\<rparr>,
          \<lparr>velocity = 80, pitch = 82, start_time = 0, end_time = 1\<rparr>]"
    by code_simp
  from synthesized_notes_in_range [OF h,
      of "\<lparr>velocity = 80, pitch = 82, start_time = 0, end_time = 1\<rparr>"]
  have "\<exists>r iv i. r \<in> ran CHORD_ROOT_MAP \<and> iv \<in> ran CHORD_TYPE_MAP \<and> i \<in> set iv \<and>
      (82 :: int) = r + i"
    by simp
  with h show ?thesis by (rule conjI)
qed

end
